theory Spec2Isabelle
  imports Main "HOL-Library.Word" "HOL-Library.Sublist"
begin

unbundle bit_operations_syntax

section \<open>JavaScript strings\<close>

text \<open>
  A JavaScript string is a sequence of UTF-16 code units. The regular expressions of the
  parser carry no \<open>u\<close> flag, so they too work on code units. Source literals that are plain
  ASCII are written as HOL strings and converted with \<open>ascii\<close>; the emoji literals of the
  source are written as their two code units.
\<close>

type_synonym jsstring = "16 word list"

definition ascii :: "string \<Rightarrow> jsstring" where
  "ascii s = map of_char s"

text \<open>
  \<open>String.prototype.replace(pattern, replacement)\<close> with a string pattern: only the first
  occurrence of the pattern is replaced. (The replacements used here contain no \<open>$\<close>.)
\<close>

fun replaceFirst :: "'a list \<Rightarrow> 'a list \<Rightarrow> 'a list \<Rightarrow> 'a list" where
  "replaceFirst pat rep [] = (if pat = [] then rep else [])"
| "replaceFirst pat rep (c # cs) =
     (if prefix pat (c # cs) then rep @ drop (length pat) (c # cs)
      else c # replaceFirst pat rep cs)"

text \<open>
  The characters matched by \<open>\s\<close> and removed by \<open>String.prototype.trim\<close>: the
  ECMAScript WhiteSpace and LineTerminator code points.
\<close>

definition isWhiteSpace :: "16 word \<Rightarrow> bool" where
  "isWhiteSpace c \<longleftrightarrow>
     (0x0009 \<le> c \<and> c \<le> 0x000D) \<or> c = 0x0020 \<or> c = 0x00A0 \<or> c = 0x1680 \<or>
     (0x2000 \<le> c \<and> c \<le> 0x200A) \<or> c = 0x2028 \<or> c = 0x2029 \<or> c = 0x202F \<or>
     c = 0x205F \<or> c = 0x3000 \<or> c = 0xFEFF"

definition trim :: "jsstring \<Rightarrow> jsstring" where
  "trim s = rev (dropWhile isWhiteSpace (rev (dropWhile isWhiteSpace s)))"

text \<open>\<open>Number.prototype.toString(16)\<close> on a non-negative integer: lowercase, no leading zero.\<close>

definition hexDigit :: "nat \<Rightarrow> 16 word" where
  "hexDigit d = (if d < 10 then of_nat (48 + d) else of_nat (87 + d))"

function toString16 :: "nat \<Rightarrow> jsstring" where
  "toString16 n = (if n < 16 then [hexDigit n] else toString16 (n div 16) @ [hexDigit (n mod 16)])"
  by pat_completeness auto
termination
  by (relation "measure (\<lambda>n. n)") auto

declare toString16.simps [simp del]

section \<open>emojis.js\<close>

definition emojiTemplate :: "jsstring \<Rightarrow> jsstring" where
  "emojiTemplate unicode =
     ascii (''<img class='' @ [CHR 0x22] @ ''mindmap-emoji'' @ [CHR 0x22] @ '' src='' @ [CHR 0x22] @
            ''https://assets-cdn.github.com/images/icons/emoji/unicode/'')
     @ unicode @ ascii (''.png'' @ [CHR 0x22] @ ''>'')"

definition customEmojiTemplate :: "jsstring \<Rightarrow> jsstring" where
  "customEmojiTemplate emoji =
     ascii (''<img class='' @ [CHR 0x22] @ ''mindmap-emoji'' @ [CHR 0x22] @ '' src='' @ [CHR 0x22] @
            ''https://assets-cdn.github.com/images/icons/emoji/'')
     @ emoji @ ascii (''.png'' @ [CHR 0x22] @ ''>'')"

text \<open>\<open>matchEmojis = /([\uD800-\uDBFF][\uDC00-\uDFFF])/g\<close>: a lead surrogate, then a trail surrogate.\<close>

definition isLead :: "16 word \<Rightarrow> bool" where
  "isLead c \<longleftrightarrow> 0xD800 \<le> c \<and> c \<le> 0xDBFF"

definition isTrail :: "16 word \<Rightarrow> bool" where
  "isTrail c \<longleftrightarrow> 0xDC00 \<le> c \<and> c \<le> 0xDFFF"

text \<open>
  \<open>s.replace(matchEmojis, fn)\<close>: the matches are found from left to right, each one is
  replaced by what the callback returns for it, and the search goes on after the match.
\<close>

fun replace_matchEmojis :: "(jsstring \<Rightarrow> jsstring) \<Rightarrow> jsstring \<Rightarrow> jsstring" where
  "replace_matchEmojis fn (a # b # cs) =
     (if isLead a \<and> isTrail b then fn [a, b] @ replace_matchEmojis fn cs
      else a # replace_matchEmojis fn (b # cs))"
| "replace_matchEmojis fn cs = cs"

text \<open>the array of all matches, in order (empty where \<open>s.match(matchEmojis)\<close> is \<open>null\<close>)\<close>

fun all_matchEmojis :: "jsstring \<Rightarrow> jsstring list" where
  "all_matchEmojis (a # b # cs) =
     (if isLead a \<and> isTrail b then [a, b] # all_matchEmojis cs
      else all_matchEmojis (b # cs))"
| "all_matchEmojis cs = []"

text \<open>\<open>s.match(matchEmojis)\<close>: \<open>null\<close> when nothing matches, the array of the matches otherwise.\<close>

definition match_matchEmojis :: "jsstring \<Rightarrow> jsstring list option" where
  "match_matchEmojis s = (if all_matchEmojis s = [] then None else Some (all_matchEmojis s))"

text \<open>The emoji literals of the source, as UTF-16 code units.\<close>

definition octopus :: jsstring where "octopus = [0xD83D, 0xDC19]"           \<comment> \<open>U+1F419\<close>
definition robot :: jsstring where "robot = [0xD83E, 0xDD16]"               \<comment> \<open>U+1F916\<close>
definition cardIndexDividers :: jsstring where "cardIndexDividers = [0xD83D, 0xDDC2]" \<comment> \<open>U+1F5C2\<close>
definition worldMap :: jsstring where "worldMap = [0xD83D, 0xDDFA]"         \<comment> \<open>U+1F5FA\<close>
definition globe :: jsstring where "globe = [0xD83C, 0xDF10]"               \<comment> \<open>U+1F310\<close>
definition openBook :: jsstring where "openBook = [0xD83D, 0xDCD6]"         \<comment> \<open>U+1F4D6\<close>
definition closedBook :: jsstring where "closedBook = [0xD83D, 0xDCD5]"     \<comment> \<open>U+1F4D5\<close>
definition pageFacingUp :: jsstring where "pageFacingUp = [0xD83D, 0xDCC4]" \<comment> \<open>U+1F4C4\<close>
definition eyes :: jsstring where "eyes = [0xD83D, 0xDC40]"                 \<comment> \<open>U+1F440\<close>
definition fountainPen :: jsstring where "fountainPen = [0xD83D, 0xDD8B]"   \<comment> \<open>U+1F58B\<close>
definition cardFileBox :: jsstring where "cardFileBox = [0xD83D, 0xDDC3]"   \<comment> \<open>U+1F5C3\<close>
definition alienMonster :: jsstring where "alienMonster = [0xD83D, 0xDC7E]" \<comment> \<open>U+1F47E\<close>
definition paintbrush :: jsstring where "paintbrush = [0xD83D, 0xDD8C]"     \<comment> \<open>U+1F58C\<close>
definition microphone :: jsstring where "microphone = [0xD83C, 0xDF99]"     \<comment> \<open>U+1F399\<close>
definition postbox :: jsstring where "postbox = [0xD83D, 0xDCEE]"           \<comment> \<open>U+1F4EE\<close>
definition speakingHead :: jsstring where "speakingHead = [0xD83D, 0xDDE3]" \<comment> \<open>U+1F5E3\<close>
definition movieCamera :: jsstring where "movieCamera = [0xD83C, 0xDFA5]"   \<comment> \<open>U+1F3A5\<close>

text \<open>The callback of \<open>emojiToHTML\<close>, applied to one match.\<close>

definition emojiImage :: "jsstring \<Rightarrow> jsstring" where
  "emojiImage match =
     (if match = octopus then customEmojiTemplate (ascii ''octocat'')
      else if match = robot then
        ascii (''<img class='' @ [CHR 0x22] @ ''mindmap-emoji reddit-emoji'' @ [CHR 0x22] @ '' src='' @ [CHR 0x22] @
               ''https://encrypted-tbn0.gstatic.com/images?q=tbn:ANd9GcTNpOQVZdTCyVamjJPl92KjaDHigNWVM8mOLHPRU4DHoVNJWxCg'' @
               [CHR 0x22] @ ''>'')
      else if match = cardIndexDividers then
        ascii (''<img class='' @ [CHR 0x22] @ ''mindmap-emoji'' @ [CHR 0x22] @ '' src='' @ [CHR 0x22] @
               ''https://cdn.sstatic.net/Sites/stackoverflow/company/img/logos/se/se-icon.png?v=93426798a1d4'' @
               [CHR 0x22] @ ''>'')
      else
        let lead = (ucast (match ! 0) :: 32 word) AND 0x3FF;
            trail = (ucast (match ! 1) :: 32 word) AND 0x3FF;
            unicode = toString16 (unat (push_bit 10 lead + trail))
        in emojiTemplate (ascii ''1'' @ unicode))"

definition emojiToHTML :: "jsstring \<Rightarrow> jsstring" where
  "emojiToHTML html = replace_matchEmojis emojiImage html"

definition emojiToCategory :: "jsstring \<Rightarrow> jsstring" where
  "emojiToCategory emoji =
     (if emoji = worldMap then ascii ''mindmap''
      else if emoji = globe then ascii ''wiki''
      else if emoji = cardIndexDividers then ascii ''stack exchange''
      else if emoji = openBook then ascii ''free book''
      else if emoji = closedBook then ascii ''non-free book''
      else if emoji = pageFacingUp then ascii ''paper''
      else if emoji = eyes then ascii ''video''
      else if emoji = fountainPen then ascii ''article''
      else if emoji = cardFileBox then ascii ''blog''
      else if emoji = octopus then ascii ''github''
      else if emoji = alienMonster then ascii ''interactive''
      else if emoji = paintbrush then ascii ''image''
      else if emoji = microphone then ascii ''podcast''
      else if emoji = postbox then ascii ''newsletter''
      else if emoji = speakingHead then ascii ''chat''
      else if emoji = movieCamera then ascii ''youtube''
      else if emoji = robot then ascii ''reddit''
      else [])"

section \<open>The parser\<close>

text \<open>
  The parser imports \<open>getText\<close> and \<open>getURL\<close> from a module \<open>./regex\<close>. Both take the rich
  text of a field and return a string; the functions below take them as parameters, so
  every theorem holds for any such pair of functions.
\<close>

datatype error = TypeError

subsection \<open>Raw documents\<close>

text \<open>
  The objects that \<open>parseNode\<close>, \<open>parseSubnode\<close> and \<open>parseConn\<close> test for, or read a property
  of, may be missing from the JSON and are options: the title, the note, the location and
  the style of a node, the stroke style, its colour, and the title of a connection. Reading
  a property of a missing object raises a \<open>TypeError\<close>. The rich text of a title or a note
  that is there is a string, the children of a node are a list, and a connection has its
  waypoint offset. Coordinates are copied and never computed with, so their type \<open>'n\<close> is
  left open.
\<close>

record richText =
  rt_text :: jsstring

record 'n point =
  pt_x :: 'n
  pt_y :: 'n

record strokeStyle =
  ss_color :: "jsstring option"

record shapeStyle =
  borderStrokeStyle :: "strokeStyle option"

datatype 'n rawNode = RawNode
  (node_title: "richText option")
  (node_note: "richText option")
  (node_location: "'n point option")
  (node_id: jsstring)
  (node_shapeStyle: "shapeStyle option")
  (node_nodes: "'n rawNode list")

record 'n rawConn =
  startNodeID :: jsstring
  endNodeID :: jsstring
  conn_title :: "richText option"
  wayPointOffset :: "'n point"

record 'n rawMap =
  map_token :: jsstring
  map_title :: jsstring
  map_nodes :: "'n rawNode list"
  map_connections :: "'n rawConn list"

subsection \<open>Normalized documents\<close>

text \<open>A field that is \<open>undefined\<close> or was never set is \<open>None\<close>; \<open>JSON.stringify\<close> leaves both out.\<close>

record 'n parsedNode =
  pn_text :: jsstring
  pn_note :: "jsstring option"
  pn_url :: "jsstring option"
  pn_fx :: 'n
  pn_fy :: 'n
  pn_category :: "jsstring option"

record 'n parsedSubnode = "'n parsedNode" +
  ps_color :: "jsstring option"
  ps_parent :: jsstring

record 'n parsedConn =
  pc_source :: "jsstring option"
  pc_target :: "jsstring option"
  pc_curve :: "'n point"
  pc_text :: "jsstring option"

record 'n parsedMap =
  pm_title :: jsstring
  pm_nodes :: "'n parsedNode list"
  pm_subnodes :: "'n parsedSubnode list"
  pm_connections :: "'n parsedConn list"

text \<open>
  \<open>Object.assign({ parent }, subnode)\<close>: the raw subnode together with its parent's text
  (a raw node has no property \<open>parent\<close> of its own that would overwrite it).
\<close>

record 'n taggedNode =
  tn_parent :: jsstring
  tn_node :: "'n rawNode"

subsection \<open>parseNode\<close>

text \<open>
  \<open>url.match(/\/id\/(\S{40})/)\<close>: the leftmost place where \<open>/id/\<close> is followed by 40 code units
  that are not white space; the result is the captured group, \<open>None\<close> for \<open>null\<close>.
\<close>

fun matchInternalURL :: "jsstring \<Rightarrow> jsstring option" where
  "matchInternalURL [] = None"
| "matchInternalURL (c # cs) =
     (if prefix (ascii ''/id/'') (c # cs) \<and> 40 \<le> length (drop 4 (c # cs))
         \<and> list_all (\<lambda>u. \<not> isWhiteSpace u) (take 40 (drop 4 (c # cs)))
      then Some (take 40 (drop 4 (c # cs)))
      else matchInternalURL cs)"

text \<open>The phrase that is removed from a note; the source has two spaces before \<open>please\<close>.\<close>

definition boilerplate :: jsstring where
  "boilerplate = ascii ''if you think this can be improved in any way  please say''"

text \<open>
  \<open>mapsLookup\<close> is the global object of the source, read as the map of its own properties
  from tokens to paths: a captured token has 40 code units, which no property inherited from
  \<open>Object.prototype\<close> has, so a token that was never stored reads as \<open>undefined\<close>.
\<close>

definition parseNode ::
  "(jsstring \<Rightarrow> jsstring) \<Rightarrow> (jsstring \<Rightarrow> jsstring) \<Rightarrow> (jsstring \<rightharpoonup> jsstring) \<Rightarrow>
   'n rawNode \<Rightarrow> error + 'n parsedNode" where
  "parseNode getText getURL mapsLookup node =
     (case node_title node of None \<Rightarrow> Inl TypeError | Some title \<Rightarrow>
     (case node_location node of None \<Rightarrow> Inl TypeError | Some location \<Rightarrow>
        let parsedNode = \<lparr> pn_text = getText (rt_text title),
                           pn_note = (case node_note node of
                                        Some note \<Rightarrow> Some (getText (rt_text note)) | None \<Rightarrow> None),
                           pn_url = Some (getURL (rt_text title)),
                           pn_fx = pt_x location,
                           pn_fy = pt_y location,
                           pn_category = None \<rparr>;
            parsedNode = (case matchInternalURL (getURL (rt_text title)) of
                            Some token \<Rightarrow> parsedNode \<lparr> pn_url := mapsLookup token \<rparr>
                          | None \<Rightarrow> parsedNode);
            parsedNode = (case pn_note parsedNode of
                            Some note \<Rightarrow>
                              if note \<noteq> []
                              then parsedNode \<lparr> pn_note := Some (replaceFirst boilerplate [] note) \<rparr>
                              else parsedNode
                          | None \<Rightarrow> parsedNode);
            parsedNode = (case match_matchEmojis (pn_text parsedNode) of
                            Some match \<Rightarrow>
                              parsedNode \<lparr> pn_category := Some (emojiToCategory (match ! 0)),
                                           pn_text := trim (replace_matchEmojis (\<lambda>m. []) (pn_text parsedNode)) \<rparr>
                          | None \<Rightarrow> parsedNode)
        in Inr parsedNode))"

subsection \<open>Flattening the subnodes\<close>

fun getSubnodesR ::
  "(jsstring \<Rightarrow> jsstring) \<Rightarrow> (jsstring \<Rightarrow> jsstring) \<Rightarrow> (jsstring \<rightharpoonup> jsstring) \<Rightarrow>
   'n rawNode list \<Rightarrow> jsstring \<Rightarrow> error + 'n taggedNode list" where
  "getSubnodesR getText getURL mapsLookup [] parent = Inr []"
| "getSubnodesR getText getURL mapsLookup (RawNode t n l i s ch # subnodes) parent =
     (case parseNode getText getURL mapsLookup (RawNode t n l i s ch) of
        Inl e \<Rightarrow> Inl e
      | Inr p \<Rightarrow>
          (case getSubnodesR getText getURL mapsLookup ch (pn_text p) of
             Inl e \<Rightarrow> Inl e
           | Inr sub \<Rightarrow>
               (case getSubnodesR getText getURL mapsLookup subnodes parent of
                  Inl e \<Rightarrow> Inl e
                | Inr res \<Rightarrow>
                    Inr (\<lparr> tn_parent = parent, tn_node = RawNode t n l i s ch \<rparr> # sub @ res))))"

fun getSubnodes ::
  "(jsstring \<Rightarrow> jsstring) \<Rightarrow> (jsstring \<Rightarrow> jsstring) \<Rightarrow> (jsstring \<rightharpoonup> jsstring) \<Rightarrow>
   'n rawNode list \<Rightarrow> error + 'n taggedNode list" where
  "getSubnodes getText getURL mapsLookup [] = Inr []"
| "getSubnodes getText getURL mapsLookup (node # nodes) =
     (case parseNode getText getURL mapsLookup node of
        Inl e \<Rightarrow> Inl e
      | Inr p \<Rightarrow>
          (case getSubnodesR getText getURL mapsLookup (node_nodes node) (pn_text p) of
             Inl e \<Rightarrow> Inl e
           | Inr sub \<Rightarrow>
               (case getSubnodes getText getURL mapsLookup nodes of
                  Inl e \<Rightarrow> Inl e
                | Inr subnodes \<Rightarrow> Inr (sub @ subnodes))))"

definition parseSubnode ::
  "(jsstring \<Rightarrow> jsstring) \<Rightarrow> (jsstring \<Rightarrow> jsstring) \<Rightarrow> (jsstring \<rightharpoonup> jsstring) \<Rightarrow>
   'n taggedNode \<Rightarrow> error + 'n parsedSubnode" where
  "parseSubnode getText getURL mapsLookup subnode =
     (case parseNode getText getURL mapsLookup (tn_node subnode) of
        Inl e \<Rightarrow> Inl e
      | Inr parsedSubnode \<Rightarrow>
          let color = (case node_shapeStyle (tn_node subnode) of
                         None \<Rightarrow> None
                       | Some style \<Rightarrow>
                           (case borderStrokeStyle style of
                              None \<Rightarrow> None
                            | Some stroke \<Rightarrow> ss_color stroke))
          in Inr \<lparr> pn_text = pn_text parsedSubnode, pn_note = pn_note parsedSubnode,
                   pn_url = pn_url parsedSubnode, pn_fx = pn_fx parsedSubnode,
                   pn_fy = pn_fy parsedSubnode, pn_category = pn_category parsedSubnode,
                   ps_color = color, ps_parent = tn_parent subnode \<rparr>)"

subsection \<open>parseConn\<close>

definition parseConn ::
  "(jsstring \<Rightarrow> jsstring) \<Rightarrow> 'n rawConn \<Rightarrow> (jsstring \<rightharpoonup> jsstring) \<Rightarrow> 'n parsedConn" where
  "parseConn getText conn lookup =
     (let parsedConn = \<lparr> pc_source = lookup (startNodeID conn),
                          pc_target = lookup (endNodeID conn),
                          pc_curve = \<lparr> pt_x = pt_x (wayPointOffset conn),
                                       pt_y = pt_y (wayPointOffset conn) \<rparr>,
                          pc_text = None \<rparr>
      in case conn_title conn of
           None \<Rightarrow> parsedConn
         | Some title \<Rightarrow>
             if rt_text title \<noteq> []
             then parsedConn \<lparr> pc_text := Some (getText (rt_text title)) \<rparr>
             else parsedConn)"

subsection \<open>The two passes\<close>

text \<open>
  \<open>walkDir\<close> hands every file of the input directory to a callback, as the parsed document
  and its absolute path; here the files are the list of these pairs, in the order of the walk.
\<close>

definition relativeFilePath :: "jsstring \<Rightarrow> jsstring \<Rightarrow> jsstring" where
  "relativeFilePath inputBasePath filename =
     (let relativeFilePath =
            replaceFirst (ascii ''.json'') [] (replaceFirst inputBasePath [] filename)
      in if relativeFilePath \<noteq> ascii ''/learn-anything''
         then replaceFirst (ascii ''/learn-anything'') [] relativeFilePath
         else relativeFilePath)"

text \<open>
  \<open>obj[key] = value\<close> on a plain object \<open>{}\<close>, with a string as the value. The tables
  \<open>mapsLookup\<close> and \<open>nodesLookup\<close> are such objects, read here as the map of their own
  properties. The key \<open>__proto__\<close> names the accessor of \<open>Object.prototype\<close>, whose setter
  ignores a string, so this assignment stores nothing; every other key becomes an own
  property.
\<close>

definition setProperty ::
  "(jsstring \<rightharpoonup> jsstring) \<Rightarrow> jsstring \<Rightarrow> jsstring \<Rightarrow> (jsstring \<rightharpoonup> jsstring)" where
  "setProperty obj key v = (if key = ascii ''__proto__'' then obj else obj (key \<mapsto> v))"

fun buildMapsLookup ::
  "jsstring \<Rightarrow> ('n rawMap \<times> jsstring) list \<Rightarrow> (jsstring \<rightharpoonup> jsstring) \<Rightarrow> (jsstring \<rightharpoonup> jsstring)" where
  "buildMapsLookup inputBasePath [] mapsLookup = mapsLookup"
| "buildMapsLookup inputBasePath ((m, filename) # files) mapsLookup =
     buildMapsLookup inputBasePath files
       (setProperty mapsLookup (map_token m) (relativeFilePath inputBasePath filename))"

text \<open>\<open>map.nodes.map(...)\<close> of the second pass: the parsed nodes and the lookup from id to text.\<close>

fun parseNodes ::
  "(jsstring \<Rightarrow> jsstring) \<Rightarrow> (jsstring \<Rightarrow> jsstring) \<Rightarrow> (jsstring \<rightharpoonup> jsstring) \<Rightarrow>
   'n rawNode list \<Rightarrow> (jsstring \<rightharpoonup> jsstring) \<Rightarrow> error + ('n parsedNode list \<times> (jsstring \<rightharpoonup> jsstring))" where
  "parseNodes getText getURL mapsLookup [] nodesLookup = Inr ([], nodesLookup)"
| "parseNodes getText getURL mapsLookup (node # nodes) nodesLookup =
     (case parseNode getText getURL mapsLookup node of
        Inl e \<Rightarrow> Inl e
      | Inr parsedNode \<Rightarrow>
          (case parseNodes getText getURL mapsLookup nodes
                  (setProperty nodesLookup (node_id node) (pn_text parsedNode)) of
             Inl e \<Rightarrow> Inl e
           | Inr (parsed, lookup) \<Rightarrow> Inr (parsedNode # parsed, lookup)))"

fun parseSubnodes ::
  "(jsstring \<Rightarrow> jsstring) \<Rightarrow> (jsstring \<Rightarrow> jsstring) \<Rightarrow> (jsstring \<rightharpoonup> jsstring) \<Rightarrow>
   'n taggedNode list \<Rightarrow> error + 'n parsedSubnode list" where
  "parseSubnodes getText getURL mapsLookup [] = Inr []"
| "parseSubnodes getText getURL mapsLookup (subnode # subnodes) =
     (case parseSubnode getText getURL mapsLookup subnode of
        Inl e \<Rightarrow> Inl e
      | Inr parsedSubnode \<Rightarrow>
          (case parseSubnodes getText getURL mapsLookup subnodes of
             Inl e \<Rightarrow> Inl e
           | Inr parsed \<Rightarrow> Inr (parsedSubnode # parsed)))"

definition parseMap ::
  "(jsstring \<Rightarrow> jsstring) \<Rightarrow> (jsstring \<Rightarrow> jsstring) \<Rightarrow> (jsstring \<rightharpoonup> jsstring) \<Rightarrow>
   'n rawMap \<Rightarrow> error + 'n parsedMap" where
  "parseMap getText getURL mapsLookup m =
     (case parseNodes getText getURL mapsLookup (map_nodes m) Map.empty of
        Inl e \<Rightarrow> Inl e
      | Inr (nodes, nodesLookup) \<Rightarrow>
          (case getSubnodes getText getURL mapsLookup (map_nodes m) of
             Inl e \<Rightarrow> Inl e
           | Inr flat \<Rightarrow>
               (case parseSubnodes getText getURL mapsLookup flat of
                  Inl e \<Rightarrow> Inl e
                | Inr subnodes \<Rightarrow>
                    Inr \<lparr> pm_title = map_title m,
                          pm_nodes = nodes,
                          pm_subnodes = subnodes,
                          pm_connections =
                            map (\<lambda>conn. parseConn getText conn nodesLookup) (map_connections m) \<rparr>)))"

section \<open>Notions of the specification\<close>

subsection \<open>Hexadecimal numerals\<close>

text \<open>The number that a string of the digits \<open>0\<close>-\<open>9\<close>, \<open>a\<close>-\<open>f\<close> denotes.\<close>

definition hexValue :: "16 word \<Rightarrow> nat" where
  "hexValue c = (if c \<le> 57 then unat c - 48 else unat c - 87)"

definition parseHex :: "jsstring \<Rightarrow> nat" where
  "parseHex s = foldl (\<lambda>acc c. 16 * acc + hexValue c) 0 s"

subsection \<open>The category table\<close>

text \<open>
  The table that \<open>emojiToCategory\<close> implements, one pair for each \<open>case\<close> of the source in
  the order of the source, and the table as the specification lists it (sixteen pairs,
  \<open>stack exchange\<close> is not among them).
\<close>

definition categoryTable :: "(jsstring \<times> jsstring) list" where
  "categoryTable =
    [(worldMap, ascii ''mindmap''), (globe, ascii ''wiki''),
     (cardIndexDividers, ascii ''stack exchange''),
     (openBook, ascii ''free book''), (closedBook, ascii ''non-free book''),
     (pageFacingUp, ascii ''paper''), (eyes, ascii ''video''), (fountainPen, ascii ''article''),
     (cardFileBox, ascii ''blog''), (octopus, ascii ''github''),
     (alienMonster, ascii ''interactive''), (paintbrush, ascii ''image''),
     (microphone, ascii ''podcast''), (postbox, ascii ''newsletter''),
     (speakingHead, ascii ''chat''), (movieCamera, ascii ''youtube''), (robot, ascii ''reddit'')]"

definition categoryTable_claimed :: "(jsstring \<times> jsstring) list" where
  "categoryTable_claimed =
    [(worldMap, ascii ''mindmap''), (globe, ascii ''wiki''),
     (openBook, ascii ''free book''), (closedBook, ascii ''non-free book''),
     (pageFacingUp, ascii ''paper''), (eyes, ascii ''video''), (fountainPen, ascii ''article''),
     (cardFileBox, ascii ''blog''), (octopus, ascii ''github''),
     (alienMonster, ascii ''interactive''), (paintbrush, ascii ''image''),
     (microphone, ascii ''podcast''), (postbox, ascii ''newsletter''),
     (speakingHead, ascii ''chat''), (movieCamera, ascii ''youtube''), (robot, ascii ''reddit'')]"

subsection \<open>Surrogate pairs in a text\<close>

definition hasSurrogatePair :: "jsstring \<Rightarrow> bool" where
  "hasSurrogatePair s = list_ex (\<lambda>(a, b). isLead a \<and> isTrail b) (zip s (tl s))"

definition firstSurrogatePair :: "jsstring \<Rightarrow> jsstring option" where
  "firstSurrogatePair s =
     map_option (\<lambda>(a, b). [a, b]) (find (\<lambda>(a, b). isLead a \<and> isTrail b) (zip s (tl s)))"

text \<open>The boilerplate phrase as the specification quotes it, with a single space before \<open>please\<close>.\<close>

definition boilerplate_claimed :: jsstring where
  "boilerplate_claimed = ascii ''if you think this can be improved in any way please say''"

subsection \<open>The node tree\<close>

text \<open>
  The nodes of a tree in depth-first pre-order, the nodes below a node, the number of nodes
  of a tree, and the pairs of a node and one of its children, in pre-order of the child.
\<close>

fun preorder :: "'n rawNode \<Rightarrow> 'n rawNode list" where
  "preorder (RawNode t n l i s ch) = RawNode t n l i s ch # concat (map preorder ch)"

definition descendants :: "'n rawNode \<Rightarrow> 'n rawNode list" where
  "descendants node = concat (map preorder (node_nodes node))"

fun nodeCount :: "'n rawNode \<Rightarrow> nat" where
  "nodeCount (RawNode t n l i s ch) = 1 + sum_list (map nodeCount ch)"

fun edges :: "'n rawNode \<Rightarrow> ('n rawNode \<times> 'n rawNode) list" where
  "edges (RawNode t n l i s ch) =
     concat (map (\<lambda>c. (RawNode t n l i s ch, c) # edges c) ch)"

text \<open>A tree in which every node has a title and a location, as the data model asks.\<close>

fun wellFormed :: "'n rawNode \<Rightarrow> bool" where
  "wellFormed (RawNode t n l i s ch) \<longleftrightarrow> t \<noteq> None \<and> l \<noteq> None \<and> list_all wellFormed ch"

text \<open>
  In a list of pairs of a parent and a child, every parent is one of the nodes seen before
  the list or the child of an earlier pair.
\<close>

fun parentsEarlier :: "'a list \<Rightarrow> ('a \<times> 'a) list \<Rightarrow> bool" where
  "parentsEarlier seen [] \<longleftrightarrow> True"
| "parentsEarlier seen ((p, c) # es) \<longleftrightarrow> p \<in> set seen \<and> parentsEarlier (c # seen) es"

subsection \<open>Example documents\<close>

text \<open>Small documents on which the theorems below are evaluated.\<close>

definition exampleNode :: "string \<Rightarrow> int rawNode list \<Rightarrow> int rawNode" where
  "exampleNode title ch =
     RawNode (Some \<lparr> rt_text = ascii title \<rparr>) None (Some \<lparr> pt_x = 1, pt_y = 2 \<rparr>) [] None ch"

definition exampleTree :: "int rawNode" where
  "exampleTree =
     exampleNode ''a'' [exampleNode ''b'' [exampleNode ''c'' []], exampleNode ''d'' []]"

definition exampleToken :: jsstring where
  "exampleToken = ascii ''0123456789abcdef0123456789abcdef01234567''"

definition exampleMap :: "int rawMap" where
  "exampleMap = \<lparr> map_token = exampleToken, map_title = ascii ''m'',
                  map_nodes = [exampleTree], map_connections = [] \<rparr>"

definition exampleConn :: "jsstring \<Rightarrow> int rawConn" where
  "exampleConn title =
     \<lparr> startNodeID = ascii ''n1'', endNodeID = ascii ''n2'',
       conn_title = Some \<lparr> rt_text = title \<rparr>, wayPointOffset = \<lparr> pt_x = 3, pt_y = 4 \<rparr> \<rparr>"

definition titledNode :: "jsstring \<Rightarrow> richText option \<Rightarrow> int rawNode" where
  "titledNode title note =
     RawNode (Some \<lparr> rt_text = title \<rparr>) note (Some \<lparr> pt_x = 1, pt_y = 2 \<rparr>) [] None []"

section \<open>Properties of emojis.js\<close>

lemmas emoji_defs =
  octopus_def robot_def cardIndexDividers_def worldMap_def globe_def openBook_def closedBook_def
  pageFacingUp_def eyes_def fountainPen_def cardFileBox_def alienMonster_def paintbrush_def
  microphone_def postbox_def speakingHead_def movieCamera_def

subsection \<open>Hexadecimal output\<close>

lemma below16: "(d :: nat) < 16 \<Longrightarrow>
   d = 0 \<or> d = 1 \<or> d = 2 \<or> d = 3 \<or> d = 4 \<or> d = 5 \<or> d = 6 \<or> d = 7 \<or> d = 8 \<or> d = 9 \<or> d = 10
   \<or> d = 11 \<or> d = 12 \<or> d = 13 \<or> d = 14 \<or> d = 15"
  by arith

lemma hexDigit_value: "d < 16 \<Longrightarrow> hexValue (hexDigit d) = d"
  by (drule below16) (auto simp: hexValue_def hexDigit_def)

lemma parseHex_snoc: "parseHex (s @ [c]) = 16 * parseHex s + hexValue c"
  by (simp add: parseHex_def)

lemma parseHex_toString16: "parseHex (toString16 n) = n"
proof (induction n rule: toString16.induct)
  case (1 n)
  show ?case
  proof (cases "n < 16")
    case True
    then show ?thesis by (simp add: toString16.simps [of n] parseHex_def hexDigit_value)
  next
    case False
    with 1 show ?thesis
      by (simp add: toString16.simps [of n] parseHex_snoc hexDigit_value)
  qed
qed

lemma hexDigit_lowercase: "d < 16 \<Longrightarrow> hexDigit d \<in> set (ascii ''0123456789abcdef'')"
  by (drule below16) (auto simp: hexDigit_def ascii_def)

lemma toString16_lowercase: "set (toString16 n) \<subseteq> set (ascii ''0123456789abcdef'')"
proof (induction n rule: toString16.induct)
  case (1 n)
  show ?case
  proof (cases "n < 16")
    case True
    then show ?thesis using hexDigit_lowercase [of n] by (simp add: toString16.simps [of n])
  next
    case False
    with 1 show ?thesis
      using hexDigit_lowercase [of "n mod 16"] by (simp add: toString16.simps [of n])
  qed
qed

lemma lead_not_trail: "isLead a \<Longrightarrow> \<not> isTrail a"
  by (auto simp: isLead_def isTrail_def word_le_nat_alt)

lemma replace_matchEmojis_pair:
  "isLead a \<Longrightarrow> isTrail b \<Longrightarrow>
   replace_matchEmojis fn (pre @ a # b # post) =
   replace_matchEmojis fn pre @ fn [a, b] @ replace_matchEmojis fn post"
  by (induction fn pre rule: replace_matchEmojis.induct) (simp_all add: lead_not_trail)

subsection \<open>The code point of a surrogate pair\<close>

lemma mask10: "(0x3FF :: 'a :: len word) = mask 10" "(0x3FF :: nat) = mask 10"
  by (simp_all add: mask_eq_exp_minus_1)

lemma low10_bound: "(n :: nat) AND 0x3FF < 1024"
  using take_bit_nat_less_exp [of 10 n] by (simp add: mask10 flip: take_bit_eq_mask)

lemma low10_unat:
  "unat ((ucast (a :: 16 word) :: 32 word) AND 0x3FF) = unat a AND 0x3FF"
proof -
  have "unat a < 2 ^ 16" using unsigned_less [of a] by simp
  then have "unat a < 2 ^ 32" by simp
  then have "take_bit 32 (unat a) = unat a" by (simp only: take_bit_nat_eq_self)
  then show ?thesis by (simp add: unsigned_and_eq unsigned_ucast_eq)
qed

lemma surrogate_value:
  "unat (push_bit 10 ((ucast (a :: 16 word) :: 32 word) AND 0x3FF) + ((ucast (b :: 16 word) :: 32 word) AND 0x3FF))
   = push_bit 10 (unat a AND 0x3FF) + (unat b AND 0x3FF)"
proof -
  let ?l = "(ucast a :: 32 word) AND 0x3FF" and ?t = "(ucast b :: 32 word) AND 0x3FF"
  have l: "unat ?l = unat a AND 0x3FF" and t: "unat ?t = unat b AND 0x3FF"
    by (rule low10_unat)+
  have lb: "unat a AND 0x3FF < 1024" and tb: "unat b AND 0x3FF < 1024"
    by (rule low10_bound)+
  have "unat (push_bit 10 ?l) = take_bit LENGTH(32) (push_bit 10 (unat ?l))"
    by (rule unsigned_push_bit_eq)
  also have "\<dots> = push_bit 10 (unat a AND 0x3FF)"
    unfolding l using lb by (simp add: push_bit_eq_mult take_bit_eq_mod)
  finally have p: "unat (push_bit 10 ?l) = push_bit 10 (unat a AND 0x3FF)" .
  have "unat (push_bit 10 ?l) + unat ?t < 2 ^ LENGTH(32)"
    using lb tb unfolding p t by (simp add: push_bit_eq_mult)
  then have "unat (push_bit 10 ?l + ?t) = unat (push_bit 10 ?l) + unat ?t"
    by (simp only: unat_add_lem)
  then show ?thesis by (simp only: p t)
qed

subsection \<open>The claims\<close>

text \<open>
  C9, as amended. \<open>emojiToCategory\<close> is a lookup in a fixed table of seventeen entries with
  distinct keys: the sixteen that the specification lists and the card index dividers
  (U+1F5C2), which give \<open>stack exchange\<close>. Every other string gives the empty string.
\<close>

theorem emojiToCategory_table:
  "emojiToCategory emoji = (case map_of categoryTable emoji of Some c \<Rightarrow> c | None \<Rightarrow> [])
   \<and> length categoryTable = 17 \<and> distinct (map fst categoryTable)"
  by (simp add: emojiToCategory_def categoryTable_def emoji_defs)

text \<open>
  C9 as stated fails: the card index dividers are not in the table of the specification,
  and \<open>emojiToCategory\<close> does not return the empty string for them.
\<close>

theorem emojiToCategory_stack_exchange:
  "cardIndexDividers \<notin> fst ` set categoryTable_claimed
   \<and> emojiToCategory cardIndexDividers = ascii ''stack exchange''
   \<and> emojiToCategory cardIndexDividers \<noteq> []"
  by (simp add: emojiToCategory_def categoryTable_claimed_def emoji_defs ascii_def)

text \<open>
  C10. Every surrogate pair of the input other than the octopus, the robot and the card
  index dividers is replaced by the tag
  \<open><img class="mindmap-emoji" src="https://assets-cdn.github.com/images/icons/emoji/unicode/1HEX.png">\<close>,
  where \<open>HEX\<close> is the lowercase hexadecimal numeral of
  \<open>((lead & 0x3FF) << 10) + (trail & 0x3FF)\<close>; the text before and after the pair is
  converted on its own. The 32-bit arithmetic of the source does not wrap here, so the
  number is stated on the natural numbers.
\<close>

theorem emojiToHTML_generic:
  assumes "isLead a" and "isTrail b"
    and "[a, b] \<noteq> octopus" and "[a, b] \<noteq> robot" and "[a, b] \<noteq> cardIndexDividers"
  shows "emojiToHTML (pre @ a # b # post) =
         emojiToHTML pre
         @ ascii (''<img class='' @ [CHR 0x22] @ ''mindmap-emoji'' @ [CHR 0x22] @ '' src='' @ [CHR 0x22]
                  @ ''https://assets-cdn.github.com/images/icons/emoji/unicode/'')
         @ ascii ''1'' @ toString16 (push_bit 10 (unat a AND 0x3FF) + (unat b AND 0x3FF))
         @ ascii (''.png'' @ [CHR 0x22] @ ''>'')
         @ emojiToHTML post"
proof -
  have "emojiImage [a, b] =
        emojiTemplate (ascii ''1'' @ toString16 (push_bit 10 (unat a AND 0x3FF) + (unat b AND 0x3FF)))"
    unfolding emojiImage_def Let_def
    by (simp only: assms(3-5) if_False nth_Cons_0 One_nat_def nth_Cons_Suc surrogate_value)
  then have "emojiImage [a, b] =
        ascii (''<img class='' @ [CHR 0x22] @ ''mindmap-emoji'' @ [CHR 0x22] @ '' src='' @ [CHR 0x22]
               @ ''https://assets-cdn.github.com/images/icons/emoji/unicode/'')
        @ ascii ''1'' @ toString16 (push_bit 10 (unat a AND 0x3FF) + (unat b AND 0x3FF))
        @ ascii (''.png'' @ [CHR 0x22] @ ''>'')"
    by (simp only: emojiTemplate_def append_assoc)
  then show ?thesis
    using assms(1,2) by (simp only: emojiToHTML_def replace_matchEmojis_pair append_assoc)
qed

theorem emojiToHTML_generic_witness:
  "isLead 0xD83D \<and> isTrail 0xDE00 \<and> [0xD83D, 0xDE00] \<noteq> octopus \<and> [0xD83D, 0xDE00] \<noteq> robot
   \<and> [0xD83D, 0xDE00] \<noteq> cardIndexDividers
   \<and> emojiToHTML (ascii ''a'' @ 0xD83D # 0xDE00 # ascii ''b'') =
     ascii (''a<img class='' @ [CHR 0x22] @ ''mindmap-emoji'' @ [CHR 0x22] @ '' src='' @ [CHR 0x22]
            @ ''https://assets-cdn.github.com/images/icons/emoji/unicode/1f600.png'' @ [CHR 0x22]
            @ ''>b'')"
proof -
  have h: "isLead 0xD83D" "isTrail 0xDE00" "[0xD83D, 0xDE00] \<noteq> octopus" "[0xD83D, 0xDE00] \<noteq> robot"
    "[0xD83D, 0xDE00] \<noteq> cardIndexDividers"
    by (simp_all add: isLead_def isTrail_def emoji_defs)
  have n: "push_bit 10 (unat (0xD83D :: 16 word) AND 0x3FF) + (unat (0xDE00 :: 16 word) AND 0x3FF) = (0xF600 :: nat)"
    by simp
  have t: "toString16 0xF600 = ascii ''f600''"
    by (simp add: toString16.simps hexDigit_def ascii_def)
  have e: "emojiToHTML (ascii ''a'') = ascii ''a''" "emojiToHTML (ascii ''b'') = ascii ''b''"
    by (simp_all add: emojiToHTML_def ascii_def)
  show ?thesis
    using h emojiToHTML_generic [OF h, of "ascii ''a''" "ascii ''b''"]
    unfolding n t e by (simp add: ascii_def)
qed

section \<open>Properties of the parser\<close>

subsection \<open>Replacing the first occurrence\<close>

lemma replaceFirst_prefix: "replaceFirst pat rep (pat @ s) = rep @ s"
proof (cases "pat @ s")
  case Nil
  then show ?thesis by simp
next
  case (Cons a list)
  have "prefix pat (pat @ s)" by simp
  then have "replaceFirst pat rep (a # list) = rep @ drop (length pat) (a # list)"
    unfolding Cons by simp
  then show ?thesis by (simp flip: Cons)
qed

lemma prefix_append_short:
  "prefix xs (ys @ zs) \<Longrightarrow> length xs \<le> length ys \<Longrightarrow> prefix xs ys"
  by (auto simp: prefix_append)

lemma replaceFirst_absent: "\<not> sublist pat s \<Longrightarrow> replaceFirst pat rep s = s"
proof (induction s)
  case Nil
  then show ?case by auto
next
  case (Cons c s)
  then show ?case by (auto simp: sublist_Cons_right)
qed

lemma replaceFirst_first:
  assumes "\<not> sublist pat (pre @ butlast pat)"
  shows "replaceFirst pat rep (pre @ pat @ post) = pre @ rep @ post"
  using assms
proof (induction pre)
  case Nil
  then show ?case by (simp add: replaceFirst_prefix)
next
  case (Cons c pre)
  from Cons.prems have ne: "pat \<noteq> []" by auto
  have np: "\<not> prefix pat (c # pre @ pat @ post)"
  proof
    assume a: "prefix pat (c # pre @ pat @ post)"
    have "butlast pat @ last pat # post = pat @ post"
      using append_butlast_last_id [OF ne] by (metis append_Cons append_Nil append_assoc)
    then have "c # pre @ pat @ post = ((c # pre) @ butlast pat) @ (last pat # post)"
      by simp
    with a have "prefix pat (((c # pre) @ butlast pat) @ (last pat # post))"
      by simp
    moreover have "length pat \<le> length ((c # pre) @ butlast pat)" by simp
    ultimately have "prefix pat ((c # pre) @ butlast pat)"
      by (rule prefix_append_short)
    with Cons.prems show False by auto
  qed
  from Cons.prems have "\<not> sublist pat (pre @ butlast pat)"
    by (auto simp: sublist_Cons_right)
  with Cons.IH np show ?case by simp
qed

subsection \<open>The example documents, evaluated\<close>

lemma boilerplate_nonempty: "boilerplate \<noteq> []"
  by (simp add: boilerplate_def ascii_def)

lemma parseNode_titledNode:
  "parseNode (\<lambda>s. s) (\<lambda>s. []) Map.empty (titledNode [] (Some \<lparr> rt_text = boilerplate @ rest \<rparr>)) =
   Inr \<lparr> pn_text = [], pn_note = Some rest, pn_url = Some [], pn_fx = 1, pn_fy = 2,
         pn_category = None \<rparr>"
  by (simp add: parseNode_def titledNode_def match_matchEmojis_def boilerplate_nonempty
      replaceFirst_prefix)

lemma all_matchEmojis_ascii: "all_matchEmojis (ascii [c]) = []"
  by (simp add: ascii_def)

lemma parseNode_exampleNode:
  "parseNode (\<lambda>s. s) (\<lambda>s. []) Map.empty (exampleNode [c] ch) =
   Inr \<lparr> pn_text = ascii [c], pn_note = None, pn_url = Some [], pn_fx = 1, pn_fy = 2,
         pn_category = None \<rparr>"
  by (simp add: parseNode_def exampleNode_def match_matchEmojis_def all_matchEmojis_ascii)

lemma getSubnodesR_Cons:
  "getSubnodesR gT gU ml (node # subnodes) parent =
     (case parseNode gT gU ml node of
        Inl e \<Rightarrow> Inl e
      | Inr p \<Rightarrow>
          (case getSubnodesR gT gU ml (node_nodes node) (pn_text p) of
             Inl e \<Rightarrow> Inl e
           | Inr sub \<Rightarrow>
               (case getSubnodesR gT gU ml subnodes parent of
                  Inl e \<Rightarrow> Inl e
                | Inr res \<Rightarrow> Inr (\<lparr> tn_parent = parent, tn_node = node \<rparr> # sub @ res))))"
  by (cases node) (auto split: sum.splits)

lemma node_nodes_exampleNode: "node_nodes (exampleNode t ch) = ch"
  by (simp add: exampleNode_def)

lemma node_shapeStyle_exampleNode: "node_shapeStyle (exampleNode t ch) = None"
  by (simp add: exampleNode_def)

lemma parseMap_exampleMap:
  "\<exists>pm. parseMap (\<lambda>s. s) (\<lambda>s. []) Map.empty exampleMap = Inr pm
      \<and> map ps_parent (pm_subnodes pm) = [ascii ''a'', ascii ''b'', ascii ''a'']"
  by (simp add: parseMap_def exampleMap_def exampleTree_def parseNode_exampleNode parseSubnode_def
      getSubnodesR_Cons node_nodes_exampleNode node_shapeStyle_exampleNode)

subsection \<open>Categories\<close>

lemma firstSurrogatePair_matches:
  "firstSurrogatePair s = (case all_matchEmojis s of [] \<Rightarrow> None | m # ms \<Rightarrow> Some m)"
  by (induction s rule: all_matchEmojis.induct) (simp_all add: firstSurrogatePair_def)

lemma hasSurrogatePair_matches: "hasSurrogatePair s \<longleftrightarrow> all_matchEmojis s \<noteq> []"
  by (induction s rule: all_matchEmojis.induct) (auto simp: hasSurrogatePair_def)

lemma trim_first: "trim s = c # cs \<Longrightarrow> \<not> isWhiteSpace c"
proof -
  assume t: "trim s = c # cs"
  let ?d = "dropWhile isWhiteSpace s"
  let ?e = "dropWhile isWhiteSpace (rev ?d)"
  from t have e: "?e = rev cs @ [c]" unfolding trim_def by (metis rev.simps(2) rev_rev_ident)
  then have ne: "?e \<noteq> []" by simp
  have "suffix ?e (rev ?d)" by (rule suffix_dropWhile)
  then obtain xs where "rev ?d = xs @ ?e" by (auto simp: suffix_def)
  then have "rev ?d = (xs @ rev cs) @ [c]" by (simp add: e)
  then have "?d = c # rev (xs @ rev cs)" by (metis rev.simps(2) rev_rev_ident rev_append append_Cons)
  then show ?thesis by (metis hd_dropWhile list.sel(1) list.distinct(1))
qed

lemma trim_last: "trim s \<noteq> [] \<Longrightarrow> \<not> isWhiteSpace (last (trim s))"
proof -
  assume t: "trim s \<noteq> []"
  let ?e = "dropWhile isWhiteSpace (rev (dropWhile isWhiteSpace s))"
  from t have ne: "?e \<noteq> []" by (simp add: trim_def)
  then have "\<not> isWhiteSpace (hd ?e)" by (rule hd_dropWhile)
  moreover from ne have "last (trim s) = hd ?e" by (simp add: trim_def last_rev)
  ultimately show ?thesis by simp
qed

text \<open>
  C1, as amended. \<open>parseNode\<close> sets \<open>category\<close> exactly when the extracted text contains a
  surrogate pair, whether \<open>emojiToCategory\<close> knows the pair or not: the category is then
  \<open>emojiToCategory\<close> of the first pair (the empty string for a pair outside the table), and the
  text is the extracted text without its surrogate pairs, trimmed. Without a surrogate pair
  there is no \<open>category\<close> and the text is the extracted text.
\<close>

theorem parseNode_category:
  assumes "parseNode gT gU ml node = Inr pn" and "node_title node = Some title"
  shows "(pn_category pn \<noteq> None \<longleftrightarrow> hasSurrogatePair (gT (rt_text title)))
       \<and> pn_category pn = map_option emojiToCategory (firstSurrogatePair (gT (rt_text title)))
       \<and> pn_text pn =
           (if hasSurrogatePair (gT (rt_text title))
            then trim (replace_matchEmojis (\<lambda>m. []) (gT (rt_text title)))
            else gT (rt_text title))"
proof (cases "all_matchEmojis (gT (rt_text title))")
  case Nil
  from assms show ?thesis
    by (auto simp: Nil parseNode_def Let_def match_matchEmojis_def hasSurrogatePair_matches
        firstSurrogatePair_matches split: option.splits if_splits)
next
  case (Cons m ms)
  from assms show ?thesis
    by (auto simp: Cons parseNode_def Let_def match_matchEmojis_def hasSurrogatePair_matches
        firstSurrogatePair_matches split: option.splits if_splits)
qed

theorem parseNode_category_witness:
  "parseNode (\<lambda>s. s) (\<lambda>s. []) Map.empty (titledNode (eyes @ ascii '' Intro to X'') None) =
     Inr \<lparr> pn_text = ascii ''Intro to X'', pn_note = None, pn_url = Some [], pn_fx = 1, pn_fy = 2,
           pn_category = Some (ascii ''video'') \<rparr>
   \<and> node_title (titledNode (eyes @ ascii '' Intro to X'') None)
       = Some \<lparr> rt_text = eyes @ ascii '' Intro to X'' \<rparr>
   \<and> hasSurrogatePair (eyes @ ascii '' Intro to X'')"
proof -
  have e: "parseNode (\<lambda>s. s) (\<lambda>s. []) Map.empty (titledNode (eyes @ ascii '' Intro to X'') None) =
     Inr \<lparr> pn_text = ascii ''Intro to X'', pn_note = None, pn_url = Some [], pn_fx = 1, pn_fy = 2,
           pn_category = Some (ascii ''video'') \<rparr>"
    by (simp add: parseNode_def titledNode_def match_matchEmojis_def emojiToCategory_def
        emoji_defs ascii_def isLead_def isTrail_def trim_def isWhiteSpace_def)
  have t: "node_title (titledNode (eyes @ ascii '' Intro to X'') None)
       = Some \<lparr> rt_text = eyes @ ascii '' Intro to X'' \<rparr>"
    by (simp add: titledNode_def)
  from parseNode_category [OF e t] e t show ?thesis by simp
qed

text \<open>
  C1 as stated fails on a title with an emoji that is not in the table (U+1F600): the node
  gets a \<open>category\<close>, the empty string, and the emoji and the blank after it are removed from
  the text.
\<close>

theorem parseNode_unrecognized_emoji:
  "emojiToCategory [0xD83D, 0xDE00] = []
   \<and> parseNode (\<lambda>s. s) (\<lambda>s. []) Map.empty (titledNode ([0xD83D, 0xDE00] @ ascii '' hi'') None) =
     Inr \<lparr> pn_text = ascii ''hi'', pn_note = None, pn_url = Some [], pn_fx = 1, pn_fy = 2,
           pn_category = Some [] \<rparr>"
  by (simp add: parseNode_def titledNode_def match_matchEmojis_def
      emojiToCategory_def emoji_defs ascii_def isLead_def isTrail_def trim_def isWhiteSpace_def)

subsection \<open>Flattening is the pre-order traversal\<close>

lemma parseNode_wellFormed:
  "wellFormed node \<Longrightarrow> \<exists>p. parseNode gT gU ml node = Inr p"
  by (cases node) (auto simp: parseNode_def Let_def)

lemma getSubnodesR_preorder:
  "list_all wellFormed ch \<Longrightarrow>
   \<exists>res. getSubnodesR gT gU ml ch parent = Inr res
       \<and> map tn_node res = concat (map preorder ch)"
proof (induction gT gU ml ch parent rule: getSubnodesR.induct)
  case (1 gT gU ml parent)
  then show ?case by simp
next
  case (2 gT gU ml t n l i s ch subnodes parent)
  from "2.prems" have wf: "wellFormed (RawNode t n l i s ch)" and wfc: "list_all wellFormed ch"
    and wfs: "list_all wellFormed subnodes" by simp_all
  from parseNode_wellFormed [OF wf] obtain p
    where p: "parseNode gT gU ml (RawNode t n l i s ch) = Inr p" by blast
  from "2.IH"(1) [OF p wfc] obtain sub
    where sub: "getSubnodesR gT gU ml ch (pn_text p) = Inr sub"
      "map tn_node sub = concat (map preorder ch)" by blast
  from "2.IH"(2) [OF p sub(1) wfs] obtain res
    where res: "getSubnodesR gT gU ml subnodes parent = Inr res"
      "map tn_node res = concat (map preorder subnodes)" by blast
  show ?case by (simp add: p sub res)
qed

lemma length_preorder: "length (preorder node) = nodeCount node"
  by (induction node rule: preorder.induct) (simp add: length_concat comp_def cong: map_cong)

lemma length_descendants: "Suc (length (descendants node)) = nodeCount node"
  by (cases node) (simp add: descendants_def length_concat comp_def length_preorder)

lemma wellFormed_children: "wellFormed node \<Longrightarrow> list_all wellFormed (node_nodes node)"
  by (cases node) simp

lemma getSubnodes_descendants:
  "list_all wellFormed nodes \<Longrightarrow>
   \<exists>res. getSubnodes gT gU ml nodes = Inr res
       \<and> map tn_node res = concat (map descendants nodes)"
proof (induction nodes)
  case Nil
  then show ?case by simp
next
  case (Cons node nodes)
  from Cons.prems have wf: "wellFormed node" and wfs: "list_all wellFormed nodes" by simp_all
  from parseNode_wellFormed [OF wf] obtain p
    where p: "parseNode gT gU ml node = Inr p" by blast
  from getSubnodesR_preorder [OF wellFormed_children [OF wf]] obtain sub
    where sub: "getSubnodesR gT gU ml (node_nodes node) (pn_text p) = Inr sub"
      "map tn_node sub = concat (map preorder (node_nodes node))" by blast
  from Cons.IH [OF wfs] obtain res
    where res: "getSubnodes gT gU ml nodes = Inr res"
      "map tn_node res = concat (map descendants nodes)" by blast
  show ?case by (simp add: p sub res descendants_def [of node])
qed

lemma count_descendants:
  "length (concat (map descendants nodes)) + length nodes = sum_list (map nodeCount nodes)"
  by (induction nodes) (simp_all add: length_descendants [symmetric])

text \<open>
  C2. For node trees in which every node has a title and a location, flattening returns:
  \<open>getSubnodesR\<close> on a list of children gives these children and everything below them in
  depth-first pre-order, each child before its own descendants and the children in their
  input order; \<open>getSubnodes\<close> gives the descendants of the top-level nodes in this order, and
  their number is the number of all nodes less the top-level ones.
\<close>

theorem flatten_preorder:
  assumes "list_all wellFormed nodes"
  shows "(\<exists>res. getSubnodesR gT gU ml nodes parent = Inr res
            \<and> map tn_node res = concat (map preorder nodes))
       \<and> (\<exists>res. getSubnodes gT gU ml nodes = Inr res
            \<and> map tn_node res = concat (map descendants nodes)
            \<and> length res = sum_list (map nodeCount nodes) - length nodes)"
proof -
  from getSubnodes_descendants [OF assms] obtain res
    where res: "getSubnodes gT gU ml nodes = Inr res"
      "map tn_node res = concat (map descendants nodes)" by blast
  from res(2) have "length res = length (concat (map descendants nodes))"
    by (metis length_map)
  with count_descendants [of nodes]
  have "length res = sum_list (map nodeCount nodes) - length nodes" by simp
  with res getSubnodesR_preorder [OF assms] show ?thesis by simp
qed

theorem flatten_preorder_witness:
  "list_all wellFormed [exampleTree]
   \<and> (\<exists>res. getSubnodesR (\<lambda>s. s) (\<lambda>s. []) Map.empty [exampleTree] (ascii ''p'') = Inr res
          \<and> map tn_node res =
              [exampleTree, exampleNode ''b'' [exampleNode ''c'' []], exampleNode ''c'' [],
               exampleNode ''d'' []])
   \<and> (\<exists>res. getSubnodes (\<lambda>s. s) (\<lambda>s. []) Map.empty [exampleTree] = Inr res
          \<and> map tn_node res =
              [exampleNode ''b'' [exampleNode ''c'' []], exampleNode ''c'' [], exampleNode ''d'' []]
          \<and> length res = 3)"
proof -
  have wf: "list_all wellFormed [exampleTree]"
    by (simp add: exampleTree_def exampleNode_def)
  have p: "concat (map preorder [exampleTree]) =
      [exampleTree, exampleNode ''b'' [exampleNode ''c'' []], exampleNode ''c'' [],
       exampleNode ''d'' []]"
    by (simp add: exampleTree_def exampleNode_def)
  have d: "concat (map descendants [exampleTree]) =
      [exampleNode ''b'' [exampleNode ''c'' []], exampleNode ''c'' [], exampleNode ''d'' []]"
    by (simp add: descendants_def exampleTree_def exampleNode_def)
  have n: "sum_list (map nodeCount [exampleTree]) - length [exampleTree] = 3"
    by (simp add: exampleTree_def exampleNode_def)
  show ?thesis
    using wf flatten_preorder [OF wf, of "\<lambda>s. s" "\<lambda>s. []" Map.empty "ascii ''p''"]
    unfolding p d n by simp
qed

subsection \<open>The parent of a subnode\<close>

lemma edges_children:
  "edges node = concat (map (\<lambda>c. (node, c) # edges c) (node_nodes node))"
  by (cases node) simp

lemma edges_child: "(p, c) \<in> set (edges node) \<Longrightarrow> c \<in> set (node_nodes p)"
proof (induction node rule: edges.induct)
  case (1 t n l i s ch)
  then show ?case by auto
qed

lemma parentsEarlier_mono:
  "parentsEarlier seen es \<Longrightarrow> set seen \<subseteq> set seen' \<Longrightarrow> parentsEarlier seen' es"
proof (induction es arbitrary: seen seen')
  case Nil
  then show ?case by simp
next
  case (Cons e es)
  obtain p c where e: "e = (p, c)" by (cases e)
  from Cons.prems have "p \<in> set seen'" and "parentsEarlier (c # seen) es"
    by (auto simp: e)
  moreover from Cons.prems(2) have "set (c # seen) \<subseteq> set (c # seen')" by auto
  ultimately show ?case using Cons.IH [of "c # seen" "c # seen'"] by (simp add: e)
qed

lemma parentsEarlier_append:
  "parentsEarlier seen (xs @ ys) \<longleftrightarrow>
   parentsEarlier seen xs \<and> parentsEarlier (rev (map snd xs) @ seen) ys"
proof (induction xs arbitrary: seen)
  case Nil
  then show ?case by simp
next
  case (Cons e xs)
  obtain p c where e: "e = (p, c)" by (cases e)
  have "parentsEarlier (rev (map snd xs) @ c # seen) ys
        \<longleftrightarrow> parentsEarlier ((rev (map snd xs) @ [c]) @ seen) ys"
    by simp
  then show ?case by (simp add: e Cons.IH)
qed

lemma parentsEarlier_children:
  assumes "\<And>c seen. c \<in> set ch \<Longrightarrow> c \<in> set seen \<Longrightarrow> parentsEarlier seen (edges c)"
    and "x \<in> set seen"
  shows "parentsEarlier seen (concat (map (\<lambda>c. (x, c) # edges c) ch))"
  using assms
proof (induction ch arbitrary: seen)
  case Nil
  then show ?case by simp
next
  case (Cons c ch)
  have 1: "parentsEarlier (c # seen) (edges c)"
    by (rule Cons.prems(1)) simp_all
  have 2: "parentsEarlier (rev (map snd (edges c)) @ c # seen)
             (concat (map (\<lambda>c. (x, c) # edges c) ch))"
    by (rule Cons.IH) (auto intro: Cons.prems(1) simp: Cons.prems(2))
  show ?case using Cons.prems(2) 1 2 by (simp add: parentsEarlier_append)
qed

lemma parentsEarlier_edges: "node \<in> set seen \<Longrightarrow> parentsEarlier seen (edges node)"
proof (induction node arbitrary: seen rule: edges.induct)
  case (1 t n l i s ch)
  have "parentsEarlier seen
          (concat (map (\<lambda>c. (RawNode t n l i s ch, c) # edges c) ch))"
    by (rule parentsEarlier_children) (auto intro: "1.IH" "1.prems")
  then show ?case by simp
qed

lemma parentsEarlier_roots:
  "set roots \<subseteq> set seen \<Longrightarrow> parentsEarlier seen (concat (map edges roots))"
proof (induction roots arbitrary: seen)
  case Nil
  then show ?case by simp
next
  case (Cons r roots)
  have "parentsEarlier seen (edges r)"
    using Cons.prems by (intro parentsEarlier_edges) auto
  moreover have "parentsEarlier (rev (map snd (edges r)) @ seen) (concat (map edges roots))"
    using Cons.prems by (intro Cons.IH) auto
  ultimately show ?case by (simp add: parentsEarlier_append)
qed

lemma parentsEarlier_nth:
  "parentsEarlier seen es \<Longrightarrow> i < length es \<Longrightarrow>
   fst (es ! i) \<in> set seen \<or> (\<exists>j<i. snd (es ! j) = fst (es ! i))"
proof (induction es arbitrary: seen i)
  case Nil
  then show ?case by simp
next
  case (Cons e es)
  obtain p c where e: "e = (p, c)" by (cases e)
  show ?case
  proof (cases i)
    case 0
    with Cons.prems show ?thesis by (simp add: e)
  next
    case (Suc k)
    from Cons.prems have pe: "parentsEarlier (c # seen) es" and k: "k < length es"
      by (simp_all add: e Suc)
    from Cons.IH [OF pe k]
    consider "fst (es ! k) = c" | "fst (es ! k) \<in> set seen"
      | j where "j < k" "snd (es ! j) = fst (es ! k)" by auto
    then show ?thesis
    proof cases
      case 1
      then have "0 < i \<and> snd ((e # es) ! 0) = fst ((e # es) ! i)" by (simp add: e Suc)
      then show ?thesis by blast
    next
      case 2
      then show ?thesis by (simp add: Suc)
    next
      case 3
      then have "Suc j < i \<and> snd ((e # es) ! Suc j) = fst ((e # es) ! i)" by (simp add: Suc)
      then show ?thesis by blast
    qed
  qed
qed

lemma getSubnodesR_edges:
  "getSubnodesR gT gU ml ch parent = Inr res \<Longrightarrow>
   parseNode gT gU ml x = Inr px \<Longrightarrow> parent = pn_text px \<Longrightarrow>
   list_all2 (\<lambda>t e. tn_node t = snd e
                \<and> (\<exists>pp. parseNode gT gU ml (fst e) = Inr pp \<and> tn_parent t = pn_text pp))
     res (concat (map (\<lambda>c. (x, c) # edges c) ch))"
proof (induction gT gU ml ch parent arbitrary: res x px rule: getSubnodesR.induct)
  case (1 gT gU ml parent)
  then show ?case by simp
next
  case (2 gT gU ml t n l i s ch subnodes parent)
  let ?node = "RawNode t n l i s ch"
  from "2.prems"(1) obtain p sub rest
    where p: "parseNode gT gU ml ?node = Inr p"
      and sub: "getSubnodesR gT gU ml ch (pn_text p) = Inr sub"
      and rest: "getSubnodesR gT gU ml subnodes parent = Inr rest"
      and res: "res = \<lparr> tn_parent = parent, tn_node = ?node \<rparr> # sub @ rest"
    by (auto split: sum.splits)
  have a: "list_all2 (\<lambda>t e. tn_node t = snd e
                \<and> (\<exists>pp. parseNode gT gU ml (fst e) = Inr pp \<and> tn_parent t = pn_text pp))
             sub (edges ?node)"
    using "2.IH"(1) [OF p sub p refl] by simp
  have b: "list_all2 (\<lambda>t e. tn_node t = snd e
                \<and> (\<exists>pp. parseNode gT gU ml (fst e) = Inr pp \<and> tn_parent t = pn_text pp))
             rest (concat (map (\<lambda>c. (x, c) # edges c) subnodes))"
    using "2.IH"(2) [OF p sub rest "2.prems"(2,3)] .
  show ?case
    unfolding res using a b "2.prems"(2,3)
    by (simp del: edges.simps add: list_all2_appendI)
qed

lemma getSubnodes_edges:
  "getSubnodes gT gU ml nodes = Inr res \<Longrightarrow>
   list_all2 (\<lambda>t e. tn_node t = snd e
                \<and> (\<exists>pp. parseNode gT gU ml (fst e) = Inr pp \<and> tn_parent t = pn_text pp))
     res (concat (map edges nodes))"
proof (induction nodes arbitrary: res)
  case Nil
  then show ?case by simp
next
  case (Cons node nodes)
  from Cons.prems obtain p sub rest
    where p: "parseNode gT gU ml node = Inr p"
      and sub: "getSubnodesR gT gU ml (node_nodes node) (pn_text p) = Inr sub"
      and rest: "getSubnodes gT gU ml nodes = Inr rest"
      and res: "res = sub @ rest"
    by (auto split: sum.splits)
  from getSubnodesR_edges [OF sub p refl]
  have "list_all2 (\<lambda>t e. tn_node t = snd e
                \<and> (\<exists>pp. parseNode gT gU ml (fst e) = Inr pp \<and> tn_parent t = pn_text pp))
          sub (edges node)"
    by (simp only: edges_children [symmetric])
  with Cons.IH [OF rest] show ?case
    unfolding res by (simp add: list_all2_appendI)
qed

lemma parseSubnodes_each:
  "parseSubnodes gT gU ml flat = Inr subs \<Longrightarrow>
   list_all2 (\<lambda>t s. parseSubnode gT gU ml t = Inr s) flat subs"
proof (induction flat arbitrary: subs)
  case Nil
  then show ?case by simp
next
  case (Cons t flat)
  then show ?case by (auto split: sum.splits)
qed

lemma parseNodes_each:
  "parseNodes gT gU ml nodes lk = Inr (parsed, lk') \<Longrightarrow>
   list_all2 (\<lambda>n p. parseNode gT gU ml n = Inr p) nodes parsed"
proof (induction nodes arbitrary: lk parsed)
  case Nil
  then show ?case by simp
next
  case (Cons n nodes)
  then show ?case by (auto split: sum.splits prod.splits)
qed

lemma parseSubnode_fields:
  "parseSubnode gT gU ml t = Inr s \<Longrightarrow>
   ps_parent s = tn_parent t
   \<and> (\<exists>pp. parseNode gT gU ml (tn_node t) = Inr pp \<and> pn_text s = pn_text pp)"
  by (auto simp: parseSubnode_def Let_def split: sum.splits)

text \<open>
  C3. The subnode at position \<open>i\<close> of a parsed document is the parse of a node \<open>c\<close> tagged with
  the normalized text of the node \<open>p\<close> of which \<open>c\<close> is a child, so its \<open>parent\<close> is the text of
  its immediate parent; and \<open>p\<close> is either a top-level node of the document, parsed into
  \<open>nodes\<close>, or the node of a subnode at an earlier position \<open>j < i\<close>, whose text is that parent.
\<close>

theorem subnode_parent:
  assumes "parseMap gT gU ml doc = Inr pm" and "i < length (pm_subnodes pm)"
  shows "\<exists>p c pp.
           i < length (concat (map edges (map_nodes doc)))
         \<and> concat (map edges (map_nodes doc)) ! i = (p, c)
         \<and> c \<in> set (node_nodes p)
         \<and> parseNode gT gU ml p = Inr pp
         \<and> parseSubnode gT gU ml \<lparr> tn_parent = pn_text pp, tn_node = c \<rparr> = Inr (pm_subnodes pm ! i)
         \<and> ps_parent (pm_subnodes pm ! i) = pn_text pp
         \<and> (p \<in> set (map_nodes doc) \<and> pp \<in> set (pm_nodes pm)
            \<or> (\<exists>j<i. snd (concat (map edges (map_nodes doc)) ! j) = p
                    \<and> pn_text (pm_subnodes pm ! j) = pn_text pp))"
proof -
  let ?E = "concat (map edges (map_nodes doc))"
  from assms(1) obtain nodes lk flat
    where nodes: "parseNodes gT gU ml (map_nodes doc) Map.empty = Inr (nodes, lk)"
      and flat: "getSubnodes gT gU ml (map_nodes doc) = Inr flat"
      and subs: "parseSubnodes gT gU ml flat = Inr (pm_subnodes pm)"
      and pmn: "pm_nodes pm = nodes"
    by (auto simp: parseMap_def split: sum.splits prod.splits)
  note fe = getSubnodes_edges [OF flat]
  note fs = parseSubnodes_each [OF subs]
  note ns = parseNodes_each [OF nodes]
  have len: "length flat = length ?E" "length flat = length (pm_subnodes pm)"
    using list_all2_lengthD [OF fe] list_all2_lengthD [OF fs] by simp_all
  with assms(2) have iE: "i < length ?E" and iF: "i < length flat" by simp_all
  obtain p c where pc: "?E ! i = (p, c)" by (cases "?E ! i")
  from list_all2_nthD [OF fe iF] pc obtain pp
    where tn: "tn_node (flat ! i) = c" and pp: "parseNode gT gU ml p = Inr pp"
      and tp: "tn_parent (flat ! i) = pn_text pp"
    by auto
  have fl: "flat ! i = \<lparr> tn_parent = pn_text pp, tn_node = c \<rparr>"
    using tn tp by (cases "flat ! i") simp
  from list_all2_nthD [OF fs iF]
  have ps: "parseSubnode gT gU ml (flat ! i) = Inr (pm_subnodes pm ! i)" .
  from parseSubnode_fields [OF ps] tp
  have par: "ps_parent (pm_subnodes pm ! i) = pn_text pp" by simp
  have "(p, c) \<in> set ?E" using iE pc by (metis nth_mem)
  then have child: "c \<in> set (node_nodes p)" by (auto dest: edges_child)
  have "parentsEarlier (map_nodes doc) ?E" by (rule parentsEarlier_roots) simp
  from parentsEarlier_nth [OF this iE]
  consider "p \<in> set (map_nodes doc)" | j where "j < i" "snd (?E ! j) = p"
    by (auto simp: pc)
  then have "p \<in> set (map_nodes doc) \<and> pp \<in> set (pm_nodes pm)
            \<or> (\<exists>j<i. snd (?E ! j) = p \<and> pn_text (pm_subnodes pm ! j) = pn_text pp)"
  proof cases
    case 1
    then obtain k where k: "k < length (map_nodes doc)" "map_nodes doc ! k = p"
      by (auto simp: in_set_conv_nth)
    from list_all2_nthD [OF ns k(1)] k(2) pp have "nodes ! k = pp" by simp
    moreover from ns k(1) have "k < length nodes" by (simp add: list_all2_lengthD)
    ultimately have "pp \<in> set nodes" by (metis nth_mem)
    with 1 pmn show ?thesis by simp
  next
    case 2
    from 2(1) iF have jF: "j < length flat" by simp
    from list_all2_nthD [OF fe jF] 2(2) have "tn_node (flat ! j) = p" by simp
    moreover from list_all2_nthD [OF fs jF]
    have "parseSubnode gT gU ml (flat ! j) = Inr (pm_subnodes pm ! j)" .
    ultimately have "pn_text (pm_subnodes pm ! j) = pn_text pp"
      using pp by (auto dest: parseSubnode_fields)
    with 2 show ?thesis by blast
  qed
  with iE pc child pp ps par show ?thesis
    unfolding fl by blast
qed

theorem subnode_parent_witness:
  "\<exists>pm. parseMap (\<lambda>s. s) (\<lambda>s. []) Map.empty exampleMap = Inr pm
      \<and> 1 < length (pm_subnodes pm)
      \<and> (\<exists>p c pp.
           concat (map edges (map_nodes exampleMap)) ! 1 = (p, c)
         \<and> c \<in> set (node_nodes p)
         \<and> parseNode (\<lambda>s. s) (\<lambda>s. []) Map.empty p = Inr pp
         \<and> ps_parent (pm_subnodes pm ! 1) = pn_text pp
         \<and> (p \<in> set (map_nodes exampleMap) \<and> pp \<in> set (pm_nodes pm)
            \<or> (\<exists>j<1. snd (concat (map edges (map_nodes exampleMap)) ! j) = p
                    \<and> pn_text (pm_subnodes pm ! j) = pn_text pp)))"
proof -
  from parseMap_exampleMap obtain pm
    where pm: "parseMap (\<lambda>s. s) (\<lambda>s. []) Map.empty exampleMap = Inr pm"
      and ps: "map ps_parent (pm_subnodes pm) = [ascii ''a'', ascii ''b'', ascii ''a'']"
    by (elim exE conjE)
  have "length (map ps_parent (pm_subnodes pm)) = 3" unfolding ps by simp
  then have i: "1 < length (pm_subnodes pm)" by simp
  from subnode_parent [OF pm i] pm i show ?thesis by blast
qed

subsection \<open>The table of the first pass\<close>

lemma buildMapsLookup_other:
  "token \<notin> set (map (\<lambda>f. map_token (fst f)) files) \<Longrightarrow>
   buildMapsLookup base files ml token = ml token"
proof (induction files arbitrary: ml)
  case Nil
  then show ?case by simp
next
  case (Cons f files)
  obtain m filename where f: "f = (m, filename)" by (cases f)
  from Cons show ?case by (simp add: f setProperty_def)
qed

lemma buildMapsLookup_entry:
  "(m, filename) \<in> set files \<Longrightarrow> distinct (map (\<lambda>f. map_token (fst f)) files) \<Longrightarrow>
   map_token m \<noteq> ascii ''__proto__'' \<Longrightarrow>
   buildMapsLookup base files ml (map_token m) = Some (relativeFilePath base filename)"
proof (induction files arbitrary: ml)
  case Nil
  then show ?case by simp
next
  case (Cons f files)
  obtain m' filename' where f: "f = (m', filename')" by (cases f)
  show ?case
  proof (cases "(m, filename) = f")
    case True
    with Cons.prems(2) f have "map_token m \<notin> set (map (\<lambda>f. map_token (fst f)) files)"
      by auto
    from buildMapsLookup_other [OF this] True Cons.prems(3) show ?thesis
      by (simp add: f setProperty_def)
  next
    case False
    with Cons.prems have "(m, filename) \<in> set files"
      and "distinct (map (\<lambda>f. map_token (fst f)) files)" by simp_all
    from Cons.IH [OF this Cons.prems(3)] show ?thesis by (simp add: f)
  qed
qed

lemma buildMapsLookup_proto:
  "buildMapsLookup base files ml (ascii ''__proto__'') = ml (ascii ''__proto__'')"
proof (induction files arbitrary: ml)
  case Nil
  then show ?case by simp
next
  case (Cons f files)
  obtain m filename where f: "f = (m, filename)" by (cases f)
  from Cons show ?case by (simp add: f setProperty_def)
qed

lemma relativeFilePath_suffix:
  assumes "\<not> sublist (ascii ''.json'') (stem @ ascii ''.jso'')"
  shows "relativeFilePath base (base @ stem @ ascii ''.json'') =
         (if stem = ascii ''/learn-anything'' then stem
          else replaceFirst (ascii ''/learn-anything'') [] stem)"
proof -
  have b: "butlast (ascii ''.json'') = ascii ''.jso''" by (simp add: ascii_def)
  have "replaceFirst (ascii ''.json'') [] (stem @ ascii ''.json'' @ []) = stem @ [] @ []"
  proof (rule replaceFirst_first)
    show "\<not> sublist (ascii ''.json'') (stem @ butlast (ascii ''.json''))"
      unfolding b by (rule assms)
  qed
  then show ?thesis
    by (simp add: relativeFilePath_def replaceFirst_prefix)
qed

text \<open>
  Where \<open>.json\<close> occurs in the path only as its suffix, the first pass strips it: the
  entry of a document's token (a token of 40 code units, distinct from the tokens of the
  other documents) is the path without the base prefix and without the suffix, from which
  \<open>/learn-anything\<close> is removed unless the path is \<open>/learn-anything\<close> itself.
\<close>

lemma buildMapsLookup_suffix_stripped:
  assumes "(m, filename) \<in> set files"
    and "distinct (map (\<lambda>f. map_token (fst f)) files)"
    and "length (map_token m) = 40"
    and "filename = base @ stem @ ascii ''.json''"
    and "\<not> sublist (ascii ''.json'') (stem @ ascii ''.jso'')"
  shows "buildMapsLookup base files Map.empty (map_token m) =
         Some (if stem = ascii ''/learn-anything'' then stem
               else replaceFirst (ascii ''/learn-anything'') [] stem)"
proof -
  have "length (ascii ''__proto__'') = 9" by (simp add: ascii_def)
  with assms(3) have "map_token m \<noteq> ascii ''__proto__''" by auto
  from buildMapsLookup_entry [OF assms(1,2) this] relativeFilePath_suffix [OF assms(5)]
  show ?thesis by (simp add: assms(4))
qed

text \<open>
  C4 holds of the specification and fails of the code. For the document
  \<open>/in/a.json.d/b.json\<close> of the input directory \<open>/in\<close>, C4 gives the entry \<open>/a.json.d/b\<close>: the
  base prefix and the \<open>.json\<close> suffix stripped. The first pass stores \<open>/a.d/b.json\<close>:
  \<open>replace('.json', '')\<close> removes the first occurrence of \<open>.json\<close>, which is in the directory
  name, and leaves the suffix that it is there to strip.
\<close>

theorem mapsLookup_interior_json:
  "buildMapsLookup (ascii ''/in'') [(exampleMap, ascii ''/in/a.json.d/b.json'')] Map.empty
     (map_token exampleMap) = Some (ascii ''/a.d/b.json'')
   \<and> ascii ''/in/a.json.d/b.json'' = ascii ''/in'' @ ascii ''/a.json.d/b'' @ ascii ''.json''
   \<and> ascii ''/a.d/b.json'' \<noteq> ascii ''/a.json.d/b''"
  by (simp add: relativeFilePath_def setProperty_def exampleMap_def exampleToken_def ascii_def)

subsection \<open>Internal links\<close>

lemma matchInternalURL_sound:
  "matchInternalURL url = Some token \<Longrightarrow>
   length token = 40 \<and> list_all (\<lambda>u. \<not> isWhiteSpace u) token
   \<and> (\<exists>pre post. url = pre @ ascii ''/id/'' @ token @ post)"
proof (induction url)
  case Nil
  then show ?case by simp
next
  case (Cons c cs)
  show ?case
  proof (cases "matchInternalURL (c # cs) = matchInternalURL cs")
    case True
    with Cons obtain pre post where "cs = pre @ ascii ''/id/'' @ token @ post"
      "length token = 40" "list_all (\<lambda>u. \<not> isWhiteSpace u) token" by auto
    then have "c # cs = (c # pre) @ ascii ''/id/'' @ token @ post" by simp
    with \<open>length token = 40\<close> \<open>list_all (\<lambda>u. \<not> isWhiteSpace u) token\<close> show ?thesis by blast
  next
    case False
    with Cons.prems have p: "prefix (ascii ''/id/'') (c # cs)"
      and l: "40 \<le> length (drop 4 (c # cs))"
      and w: "list_all (\<lambda>u. \<not> isWhiteSpace u) (take 40 (drop 4 (c # cs)))"
      and t: "token = take 40 (drop 4 (c # cs))"
      by (auto split: if_splits)
    from p obtain rest where rest: "c # cs = ascii ''/id/'' @ rest" by (auto simp: prefix_def)
    have "length (ascii ''/id/'') = 4" by (simp add: ascii_def)
    with rest have d: "drop 4 (c # cs) = rest" by simp
    have "c # cs = [] @ ascii ''/id/'' @ token @ drop 40 rest"
      unfolding t d using rest by simp
    moreover from l have "length token = 40" unfolding t by simp
    ultimately show ?thesis using w t by blast
  qed
qed

lemma matchInternalURL_complete:
  assumes "length token = 40" and "list_all (\<lambda>u. \<not> isWhiteSpace u) token"
  shows "matchInternalURL (pre @ ascii ''/id/'' @ token @ post) \<noteq> None"
proof (induction pre)
  case Nil
  have "length (ascii ''/id/'') = 4" by (simp add: ascii_def)
  then have d: "drop 4 (ascii ''/id/'' @ token @ post) = token @ post" by simp
  obtain c cs where cs: "ascii ''/id/'' @ token @ post = c # cs"
    by (cases "ascii ''/id/'' @ token @ post") (simp_all add: ascii_def)
  have "prefix (ascii ''/id/'') (c # cs)" unfolding cs [symmetric] by simp
  moreover have "drop 4 (c # cs) = token @ post" unfolding cs [symmetric] by (rule d)
  ultimately have "matchInternalURL (c # cs) = Some token"
    using assms by simp
  then show ?case by (simp add: cs)
next
  case (Cons c pre)
  then show ?case by auto
qed

text \<open>
  C5. If the URL of a node (with a title and a location) matches the internal link pattern
  and the captured token is not in the table of the first pass, \<open>parseNode\<close> returns a node
  whose \<open>url\<close> is \<open>undefined\<close>.
\<close>

theorem unknown_token_undefined:
  assumes "node_title node = Some title" and "node_location node = Some location"
    and "matchInternalURL (gU (rt_text title)) = Some token"
    and "ml token = None"
  shows "\<exists>pn. parseNode gT gU ml node = Inr pn \<and> pn_url pn = None"
  using assms by (simp add: parseNode_def Let_def split: option.splits)

theorem unknown_token_undefined_witness:
  "node_title (titledNode (ascii ''/id/'' @ exampleToken) None)
     = Some \<lparr> rt_text = ascii ''/id/'' @ exampleToken \<rparr>
   \<and> node_location (titledNode (ascii ''/id/'' @ exampleToken) None) = Some \<lparr> pt_x = 1, pt_y = 2 \<rparr>
   \<and> matchInternalURL (ascii ''/id/'' @ exampleToken) = Some exampleToken
   \<and> (Map.empty :: jsstring \<rightharpoonup> jsstring) exampleToken = None
   \<and> (\<exists>pn. parseNode (\<lambda>s. s) (\<lambda>s. s) Map.empty (titledNode (ascii ''/id/'' @ exampleToken) None) = Inr pn
          \<and> pn_url pn = None)"
proof -
  have 1: "node_title (titledNode (ascii ''/id/'' @ exampleToken) None)
     = Some \<lparr> rt_text = ascii ''/id/'' @ exampleToken \<rparr>"
    and 2: "node_location (titledNode (ascii ''/id/'' @ exampleToken) None) = Some \<lparr> pt_x = 1, pt_y = 2 \<rparr>"
    by (simp_all add: titledNode_def)
  have 3: "matchInternalURL (ascii ''/id/'' @ exampleToken) = Some exampleToken"
    by (simp add: exampleToken_def ascii_def isWhiteSpace_def)
  have 5: "matchInternalURL ((\<lambda>s. s) (rt_text \<lparr> rt_text = ascii ''/id/'' @ exampleToken \<rparr>)) = Some exampleToken"
    using 3 by simp
  have 4: "(Map.empty :: jsstring \<rightharpoonup> jsstring) exampleToken = None" by simp
  from unknown_token_undefined
         [where gU = "\<lambda>s. s" and gT = "\<lambda>s. s" and ml = Map.empty and token = exampleToken, OF 1 2 5 4]
       1 2 3 4
  show ?thesis by simp
qed

subsection \<open>Notes, missing fields and connections\<close>

text \<open>
  C6, as amended. The note of a parsed node is the extracted note text with the first
  occurrence of the boilerplate phrase (two spaces before \<open>please\<close>) removed: the text
  before and after that occurrence is kept, and a note without the phrase is unchanged.
\<close>

theorem note_first_occurrence:
  assumes "parseNode gT gU ml node = Inr pn" and "node_note node = Some note"
  shows "pn_note pn = Some (replaceFirst boilerplate [] (gT (rt_text note)))
       \<and> (gT (rt_text note) = pre @ boilerplate @ post
             \<and> \<not> sublist boilerplate (pre @ butlast boilerplate)
           \<longrightarrow> pn_note pn = Some (pre @ post))
       \<and> (\<not> sublist boilerplate (gT (rt_text note)) \<longrightarrow> pn_note pn = Some (gT (rt_text note)))"
proof -
  have e: "replaceFirst boilerplate [] [] = []"
    using boilerplate_nonempty by simp
  from assms have n: "pn_note pn = Some (replaceFirst boilerplate [] (gT (rt_text note)))"
    by (auto simp: parseNode_def Let_def e split: option.splits if_splits)
  have "pn_note pn = Some (pre @ post)"
    if "gT (rt_text note) = pre @ boilerplate @ post"
      and "\<not> sublist boilerplate (pre @ butlast boilerplate)"
    using replaceFirst_first [OF that(2), of "[]" post] by (simp add: n that(1))
  moreover have "pn_note pn = Some (gT (rt_text note))"
    if "\<not> sublist boilerplate (gT (rt_text note))"
    using replaceFirst_absent [OF that] by (simp add: n)
  ultimately show ?thesis using n by blast
qed

theorem note_first_occurrence_witness:
  "parseNode (\<lambda>s. s) (\<lambda>s. []) Map.empty
       (titledNode [] (Some \<lparr> rt_text = boilerplate @ ascii '' thanks'' \<rparr>)) =
     Inr \<lparr> pn_text = [], pn_note = Some (ascii '' thanks''), pn_url = Some [], pn_fx = 1, pn_fy = 2,
           pn_category = None \<rparr>
   \<and> node_note (titledNode [] (Some \<lparr> rt_text = boilerplate @ ascii '' thanks'' \<rparr>))
       = Some \<lparr> rt_text = boilerplate @ ascii '' thanks'' \<rparr>
   \<and> \<not> sublist boilerplate ([] @ butlast boilerplate)
   \<and> replaceFirst boilerplate [] (boilerplate @ ascii '' thanks'') = ascii '' thanks''"
proof -
  have 1: "parseNode (\<lambda>s. s) (\<lambda>s. []) Map.empty
       (titledNode [] (Some \<lparr> rt_text = boilerplate @ ascii '' thanks'' \<rparr>)) =
     Inr \<lparr> pn_text = [], pn_note = Some (ascii '' thanks''), pn_url = Some [], pn_fx = 1, pn_fy = 2,
           pn_category = None \<rparr>"
    by (rule parseNode_titledNode)
  have 2: "node_note (titledNode [] (Some \<lparr> rt_text = boilerplate @ ascii '' thanks'' \<rparr>))
       = Some \<lparr> rt_text = boilerplate @ ascii '' thanks'' \<rparr>"
    by (simp add: titledNode_def)
  have "length (butlast boilerplate) < length boilerplate"
    using boilerplate_nonempty by simp
  then have 3: "\<not> sublist boilerplate ([] @ butlast boilerplate)"
    by (auto dest: sublist_length_le)
  from note_first_occurrence [OF 1 2, of "[]" "[]", THEN conjunct1]
  have "Some (ascii '' thanks'') = Some (replaceFirst boilerplate [] (boilerplate @ ascii '' thanks''))"
    by simp
  then have 4: "replaceFirst boilerplate [] (boilerplate @ ascii '' thanks'') = ascii '' thanks''"
    by simp
  from 1 2 3 4 show ?thesis by (intro conjI)
qed

text \<open>
  C6 as stated fails on a note that holds the phrase of the source twice and then the
  phrase as the specification quotes it: only the first occurrence is removed, and the
  parsed note still contains both phrases.
\<close>

theorem note_second_occurrence_kept:
  "parseNode (\<lambda>s. s) (\<lambda>s. []) Map.empty
       (titledNode [] (Some \<lparr> rt_text = boilerplate @ boilerplate @ boilerplate_claimed \<rparr>)) =
     Inr \<lparr> pn_text = [], pn_note = Some (boilerplate @ boilerplate_claimed), pn_url = Some [],
           pn_fx = 1, pn_fy = 2, pn_category = None \<rparr>
   \<and> sublist boilerplate (boilerplate @ boilerplate @ boilerplate_claimed)
   \<and> sublist boilerplate_claimed (boilerplate @ boilerplate @ boilerplate_claimed)
   \<and> sublist boilerplate (boilerplate @ boilerplate_claimed)
   \<and> sublist boilerplate_claimed (boilerplate @ boilerplate_claimed)"
proof -
  have 1: "sublist boilerplate_claimed (boilerplate @ boilerplate @ boilerplate_claimed)"
    using sublist_appendI [of boilerplate_claimed "boilerplate @ boilerplate" "[]"]
    by (simp only: append_Nil2 append_assoc)
  have 2: "sublist boilerplate_claimed (boilerplate @ boilerplate_claimed)"
    using sublist_appendI [of boilerplate_claimed boilerplate "[]"]
    by (simp only: append_Nil2)
  have 3: "sublist boilerplate (boilerplate @ boilerplate @ boilerplate_claimed)"
    by (rule prefix_imp_sublist) (rule prefixI, rule refl)
  have 4: "sublist boilerplate (boilerplate @ boilerplate_claimed)"
    by (rule prefix_imp_sublist) (rule prefixI, rule refl)
  from parseNode_titledNode [of "boilerplate @ boilerplate_claimed"] 1 2 3 4
  show ?thesis by (intro conjI)
qed

lemma parseNode_raises:
  "parseNode gT gU ml node = Inl e \<longleftrightarrow> node_title node = None \<or> node_location node = None"
  by (cases e) (auto simp: parseNode_def Let_def split: option.splits)

text \<open>
  C7, as amended. For a node with a title and a location \<open>parseNode\<close> returns a node,
  whether the note is present or not, and the parsed note is absent exactly when the raw
  note is.
\<close>

theorem parseNode_total:
  assumes "node_title node = Some title" and "node_location node = Some location"
  shows "\<exists>pn. parseNode gT gU ml node = Inr pn
            \<and> (pn_note pn = None \<longleftrightarrow> node_note node = None)"
  using assms by (simp add: parseNode_def Let_def split: option.splits)

theorem parseNode_total_witness:
  "node_title (titledNode (ascii ''t'') None) = Some \<lparr> rt_text = ascii ''t'' \<rparr>
   \<and> node_location (titledNode (ascii ''t'') None) = Some \<lparr> pt_x = 1, pt_y = 2 \<rparr>
   \<and> node_note (titledNode (ascii ''t'') None) = None
   \<and> (\<exists>pn. parseNode (\<lambda>s. s) (\<lambda>s. []) Map.empty (titledNode (ascii ''t'') None) = Inr pn
          \<and> pn_note pn = None)"
proof -
  have 1: "node_title (titledNode (ascii ''t'') None) = Some \<lparr> rt_text = ascii ''t'' \<rparr>"
    and 2: "node_location (titledNode (ascii ''t'') None) = Some \<lparr> pt_x = 1, pt_y = 2 \<rparr>"
    and 3: "node_note (titledNode (ascii ''t'') None) = None"
    by (simp_all add: titledNode_def)
  from parseNode_total [OF 1 2, of "\<lambda>s. s" "\<lambda>s. []" Map.empty] 1 2 3 show ?thesis by simp
qed

text \<open>C7 as stated fails on a node without a title: \<open>parseNode\<close> raises a \<open>TypeError\<close>.\<close>

theorem parseNode_absent_title:
  "parseNode (\<lambda>s. s) (\<lambda>s. []) Map.empty
     (RawNode None None (Some \<lparr> pt_x = 1, pt_y = 2 \<rparr>) [] None [])
   = (Inl TypeError :: error + int parsedNode)"
  by (simp add: parseNode_def)

text \<open>
  C8, as amended. A parsed connection has no \<open>text\<close> when the title is absent or its rich
  text is the empty string, and the extracted title text otherwise; \<open>curve\<close> is the waypoint
  offset.
\<close>

theorem parseConn_text:
  "pc_text (parseConn gT conn lookup) =
     (case conn_title conn of
        None \<Rightarrow> None
      | Some title \<Rightarrow> if rt_text title = [] then None else Some (gT (rt_text title)))
   \<and> pc_curve (parseConn gT conn lookup) = wayPointOffset conn"
  by (simp add: parseConn_def Let_def split: option.splits)

theorem parseConn_text_witness:
  "pc_text (parseConn (\<lambda>s. s) (exampleConn (ascii ''hi'')) Map.empty) = Some (ascii ''hi'')
   \<and> pc_curve (parseConn (\<lambda>s. s) (exampleConn (ascii ''hi'')) Map.empty) = \<lparr> pt_x = 3, pt_y = 4 \<rparr>"
  using parseConn_text [of "\<lambda>s. s" "exampleConn (ascii ''hi'')" Map.empty]
  by (simp add: exampleConn_def ascii_def)

text \<open>
  C8 as stated fails on a connection whose title is present with an empty rich text: the
  parsed connection has no \<open>text\<close>.
\<close>

theorem parseConn_empty_title:
  "conn_title (exampleConn []) = Some \<lparr> rt_text = [] \<rparr>
   \<and> pc_text (parseConn (\<lambda>s. s) (exampleConn []) Map.empty) = None"
  by (simp add: parseConn_def exampleConn_def)

end
